theory Spec2Isabelle
  imports Complex_Main "HOL-Library.Multiset" "HOL-Library.Log_Nat"
begin

section \<open>Column layout of the Spoolman list pages\<close>

text \<open>
  The development embeds the column editor dialog (\<open>ColumnEditorModal\<close>, with its row
  component) and the column state of the filament and vendor list pages, which are the
  same code in both pages. Column ids are strings. Numbers are the doubles of the host
  language, with their rounded arithmetic.
\<close>

subsection \<open>Arrays and sets of the host language\<close>

text \<open>
  \<open>Array.prototype.splice(start, deleteCount, ...items)\<close>: a negative start counts from
  the end, both arguments are clamped to the array, the removed elements are returned
  and the array is changed in place. The model returns the pair of the removed elements
  and the array afterwards.
\<close>

definition splice :: "int \<Rightarrow> int \<Rightarrow> 'a list \<Rightarrow> 'a list \<Rightarrow> 'a list \<times> 'a list" where
  "splice start deleteCount items xs =
     (let len = int (length xs);
          actualStart = (if start < 0 then max (len + start) 0 else min start len);
          actualDeleteCount = min (max deleteCount 0) (len - actualStart);
          a = nat actualStart;
          d = nat actualDeleteCount
      in (take d (drop a xs), take a xs @ items @ drop (a + d) xs))"

text \<open>
  A \<open>Set\<close> keeps its elements in insertion order, which \<open>Array.from\<close> makes visible: it is
  a list without repetitions. \<open>Set_new\<close> is \<open>new Set(iterable)\<close>.
\<close>

definition Set_has :: "'a \<Rightarrow> 'a list \<Rightarrow> bool" where
  "Set_has x s = (x \<in> set s)"

definition Set_add :: "'a \<Rightarrow> 'a list \<Rightarrow> 'a list" where
  "Set_add x s = (if Set_has x s then s else s @ [x])"

definition Set_delete :: "'a \<Rightarrow> 'a list \<Rightarrow> 'a list" where
  "Set_delete x s = filter (\<lambda>y. y \<noteq> x) s"

definition Set_new :: "'a list \<Rightarrow> 'a list" where
  "Set_new xs = foldl (\<lambda>s x. Set_add x s) [] xs"

definition Array_from :: "'a list \<Rightarrow> 'a list" where
  "Array_from s = s"

subsection \<open>Numbers of the host language\<close>

text \<open>
  A number is a double: not-a-number, an infinity, or a finite value, which is the real
  it denotes (the two zeros are not told apart; nothing here depends on the sign of a
  zero). A sum or a difference of finite numbers is the exact result rounded to the
  nearest double, ties to the even significand, with 53 bits of precision, gradual
  underflow below \<open>2\<^sup>-\<^sup>1\<^sup>0\<^sup>2\<^sup>2\<close>, and overflow to an infinity when the rounded value
  reaches \<open>2\<^sup>1\<^sup>0\<^sup>2\<^sup>4\<close>, that is, when its binary exponent reaches 1024.
\<close>

datatype number = NaN | PosInf | NegInf | Finite real

text \<open>\<open>pow2 e\<close> is \<open>2\<close> to the power \<open>e\<close>, for an integer \<open>e\<close>.\<close>

definition pow2 :: "int \<Rightarrow> real" where
  "pow2 e = (if 0 \<le> e then 2 ^ nat e else 1 / 2 ^ nat (- e))"

text \<open>
  The binary exponent of a real, that is \<open>\<lfloor>log\<^sub>2 \<bar>x\<bar>\<rfloor>\<close>, but not below the exponent -1022
  of the subnormal numbers; the spacing of the doubles around \<open>x\<close>; rounding to the
  nearest integer with ties to even; and the double nearest to a real.
\<close>

definition double_exponent :: "real \<Rightarrow> int" where
  "double_exponent x =
     (let a = \<bar>x\<bar>
      in max (- 1022) (if 1 \<le> a then bitlen \<lfloor>a\<rfloor> - 1 else - bitlen (\<lceil>1 / a\<rceil> - 1)))"

definition double_ulp :: "real \<Rightarrow> real" where
  "double_ulp x = pow2 (double_exponent x - 52)"

definition round_half_even :: "real \<Rightarrow> int" where
  "round_half_even r =
     (let f = \<lfloor>r\<rfloor>; d = r - of_int f
      in if d < 1 / 2 then f else if 1 / 2 < d then f + 1 else if even f then f else f + 1)"

definition nearest_double :: "real \<Rightarrow> real" where
  "nearest_double x = of_int (round_half_even (x / double_ulp x)) * double_ulp x"

definition to_double :: "real \<Rightarrow> number" where
  "to_double x =
     (let y = nearest_double x
      in if 1024 \<le> double_exponent y then (if 0 < y then PosInf else NegInf) else Finite y)"

text \<open>The operators \<open>+\<close> and \<open>-\<close> on numbers.\<close>

fun js_add :: "number \<Rightarrow> number \<Rightarrow> number" where
  "js_add (Finite x) (Finite y) = to_double (x + y)"
| "js_add NaN _ = NaN"
| "js_add _ NaN = NaN"
| "js_add PosInf NegInf = NaN"
| "js_add NegInf PosInf = NaN"
| "js_add PosInf _ = PosInf"
| "js_add _ PosInf = PosInf"
| "js_add NegInf _ = NegInf"
| "js_add _ NegInf = NegInf"

fun js_sub :: "number \<Rightarrow> number \<Rightarrow> number" where
  "js_sub (Finite x) (Finite y) = to_double (x - y)"
| "js_sub NaN _ = NaN"
| "js_sub _ NaN = NaN"
| "js_sub PosInf PosInf = NaN"
| "js_sub NegInf NegInf = NaN"
| "js_sub PosInf _ = PosInf"
| "js_sub _ NegInf = PosInf"
| "js_sub NegInf _ = NegInf"
| "js_sub _ PosInf = NegInf"

text \<open>
  \<open>Math.max\<close> of two numbers (not-a-number if either is), and \<open>Math.round\<close>: the nearest
  integer, ties upwards, which is a double whenever its argument is one.
\<close>

fun Math_max :: "number \<Rightarrow> number \<Rightarrow> number" where
  "Math_max (Finite x) (Finite y) = Finite (max x y)"
| "Math_max NaN _ = NaN"
| "Math_max _ NaN = NaN"
| "Math_max PosInf _ = PosInf"
| "Math_max _ PosInf = PosInf"
| "Math_max NegInf b = b"
| "Math_max a NegInf = a"

fun Math_round :: "number \<Rightarrow> number" where
  "Math_round (Finite x) = Finite (of_int (round x))"
| "Math_round v = v"

subsection \<open>The column editor dialog\<close>

record ColumnEditorColumn =
  id_col :: string
  label :: string

type_synonym widths_map = "string \<rightharpoonup> number"

text \<open>The argument of \<open>onApply\<close>, which is also the layout state a page keeps.\<close>

record nextState =
  columnOrder :: "string list"
  showColumns :: "string list"
  columnWidths :: widths_map

text \<open>The dialog's own state: \<open>order\<close>, \<open>visibleColumns\<close> (a \<open>Set\<close>) and \<open>widths\<close>.\<close>

record modal_state =
  order :: "string list"
  visibleColumns :: "string list"
  widths :: widths_map

text \<open>\<open>columnsById\<close>: \<open>new Map(columns.map((column) => [column.id, column]))\<close>.\<close>

definition columnsById :: "ColumnEditorColumn list \<Rightarrow> (string \<rightharpoonup> ColumnEditorColumn)" where
  "columnsById columns = foldl (\<lambda>m column. m(id_col column \<mapsto> column)) Map.empty columns"

definition Map_has :: "('k \<rightharpoonup> 'v) \<Rightarrow> 'k \<Rightarrow> bool" where
  "Map_has m k = (m k \<noteq> None)"

definition resolvedOrder :: "ColumnEditorColumn list \<Rightarrow> string list \<Rightarrow> string list" where
  "resolvedOrder columns ord =
     (let known = filter (\<lambda>i. Map_has (columnsById columns) i) ord;
          missing = map id_col (filter (\<lambda>column. \<not> (id_col column \<in> set known)) columns)
      in known @ missing)"

text \<open>
  \<open>moveColumn\<close> is the updater handed to \<open>setOrder\<close>. The destructuring
  \<open>[dragged] = next.splice(dragIndex, 1)\<close> yields \<open>undefined\<close> when nothing was removed, and
  that value is then inserted, so the elements of the array are modelled as options with
  \<open>None\<close> for \<open>undefined\<close>.
\<close>

definition moveColumn :: "int \<Rightarrow> int \<Rightarrow> 'a option list \<Rightarrow> 'a option list" where
  "moveColumn dragIndex hoverIndex prev =
     (let next = prev;
          (removed, next1) = splice dragIndex 1 [] next;
          dragged = (case removed of [] \<Rightarrow> None | d # _ \<Rightarrow> d);
          (_, next2) = splice hoverIndex 0 [dragged] next1
      in next2)"

definition toggleColumn :: "string \<Rightarrow> string list \<Rightarrow> string list" where
  "toggleColumn i prev =
     (let next = Set_new prev
      in if Set_has i next then Set_delete i next else Set_add i next)"

text \<open>\<open>updateWidth(id, width?)\<close>: the optional argument is \<open>None\<close> for \<open>undefined\<close>.\<close>

definition updateWidth :: "string \<Rightarrow> number option \<Rightarrow> widths_map \<Rightarrow> widths_map" where
  "updateWidth i width prev =
     (let next = prev
      in case width of None \<Rightarrow> next(i := None) | Some w \<Rightarrow> next(i \<mapsto> w))"

text \<open>
  The width field of a row: the properties given to the \<open>InputNumber\<close> widget, and the
  handler that receives what the widget reports (a number, a string or \<open>null\<close>).
\<close>

datatype valueType = Number number | String string | Null



definition ColumnEditorRow_onChange :: "string \<Rightarrow> valueType \<Rightarrow> widths_map \<Rightarrow> widths_map" where
  "ColumnEditorRow_onChange i v =
     updateWidth i (case v of Number w \<Rightarrow> Some w | String _ \<Rightarrow> None | Null \<Rightarrow> None)"

text \<open>
  The buttons of the dialog call the callbacks of the page: \<open>onOk\<close> calls \<open>onApply\<close>,
  \<open>onCancel\<close> is \<open>onClose\<close>. The model returns the calls made, in order.
\<close>

datatype callback = OnApply nextState | OnClose

definition onOk :: "ColumnEditorColumn list \<Rightarrow> modal_state \<Rightarrow> callback list" where
  "onOk columns st =
     [OnApply \<lparr>columnOrder = resolvedOrder columns (order st),
               showColumns = Array_from (visibleColumns st),
               columnWidths = widths st\<rparr>]"

definition onCancel :: "modal_state \<Rightarrow> callback list" where
  "onCancel st = [OnClose]"

subsection \<open>The list pages\<close>

text \<open>
  The state of a page that concerns the columns: the layout and whether the dialog is
  open. The filament page and the vendor page have the same code for all of this.
\<close>

record page_state = nextState +
  editColumnsOpen :: bool

text \<open>
  The updater of the \<open>useEffect\<close> on \<open>allColumnsWithExtraFields\<close>, and the initialiser of
  \<open>columnOrder\<close>, which runs the same code on the saved order (or on the registry when
  nothing is saved).
\<close>

definition reconcileColumnOrder :: "string list \<Rightarrow> string list \<Rightarrow> string list" where
  "reconcileColumnOrder allColumnsWithExtraFields prev =
     (let known = Set_new allColumnsWithExtraFields;
          filtered = filter (\<lambda>columnId. Set_has columnId known) prev;
          missing = filter (\<lambda>columnId. \<not> (columnId \<in> set filtered)) allColumnsWithExtraFields
      in filtered @ missing)"

definition initialColumnOrder :: "string list option \<Rightarrow> string list \<Rightarrow> string list" where
  "initialColumnOrder saved allColumnsWithExtraFields =
     (let savedOrder = (case saved of None \<Rightarrow> allColumnsWithExtraFields | Some s \<Rightarrow> s)
      in reconcileColumnOrder allColumnsWithExtraFields savedOrder)"

text \<open>The \<open>onApply\<close> handler of a page, and the page's reaction to a call of the dialog.\<close>

definition onApply :: "nextState \<Rightarrow> page_state \<Rightarrow> page_state" where
  "onApply ns p =
     p\<lparr>columnOrder := columnOrder ns,
       showColumns := showColumns ns,
       columnWidths := columnWidths ns,
       editColumnsOpen := False\<rparr>"

fun handle :: "callback \<Rightarrow> page_state \<Rightarrow> page_state" where
  "handle (OnApply ns) p = onApply ns p"
| "handle OnClose p = p\<lparr>editColumnsOpen := False\<rparr>"

text \<open>
  A resize drag. \<open>handleResizeStart\<close> runs on mouse down and fixes the column, the pointer
  position and the starting width: the override of the column if there is one, otherwise
  the rounded width of the header cell, or 0 without a header cell (the measured width
  is a parameter). \<open>onMouseMove\<close> is the updater run on each mouse move.
\<close>

record resize_drag =
  columnId :: string
  startX :: number
  startWidth :: number

definition handleResizeStart :: "widths_map \<Rightarrow> string \<Rightarrow> number \<Rightarrow> number option \<Rightarrow> resize_drag" where
  "handleResizeStart widths0 cid clientX headerCell =
     \<lparr>columnId = cid,
      startX = clientX,
      startWidth =
        (case widths0 cid of
           Some w \<Rightarrow> w
         | None \<Rightarrow> (case headerCell of Some w \<Rightarrow> Math_round w | None \<Rightarrow> Finite 0))\<rparr>"

definition onMouseMove :: "resize_drag \<Rightarrow> number \<Rightarrow> widths_map \<Rightarrow> widths_map" where
  "onMouseMove drag clientX prev =
     (let nextWidth = Math_max (Finite 60) (js_sub (js_add (startWidth drag) clientX) (startX drag))
      in prev(columnId drag \<mapsto> Math_round nextWidth))"

subsection \<open>The operations as the specification words them\<close>

text \<open>
  Reconciliation in the words of the specification: the elements of the saved order
  that exist in the registry, then the elements of the registry that are not in the
  saved order.
\<close>

definition reconcile_spec :: "'a list \<Rightarrow> 'a list \<Rightarrow> 'a list" where
  "reconcile_spec savedOrder registry =
     filter (\<lambda>x. x \<in> set registry) savedOrder @ filter (\<lambda>x. \<not> (x \<in> set savedOrder)) registry"

text \<open>The list without its element at a position.\<close>

definition removeAt :: "nat \<Rightarrow> 'a list \<Rightarrow> 'a list" where
  "removeAt n xs = take n xs @ drop (Suc n) xs"

section \<open>Properties\<close>

subsection \<open>Auxiliary facts\<close>

lemma set_foldl_Set_add:
  "set (foldl (\<lambda>s x. Set_add x s) acc xs) = set acc \<union> set xs"
  by (induction xs arbitrary: acc) (auto simp: Set_add_def Set_has_def)

lemma set_Set_new: "set (Set_new xs) = set xs"
  by (simp add: Set_new_def set_foldl_Set_add)

lemma distinct_foldl_Set_add:
  "distinct acc \<Longrightarrow> distinct (foldl (\<lambda>s x. Set_add x s) acc xs)"
  by (induction xs arbitrary: acc) (auto simp: Set_add_def Set_has_def)

lemma distinct_Set_new: "distinct (Set_new xs)"
  by (simp add: Set_new_def distinct_foldl_Set_add)

lemma Set_has_Set_new: "Set_has x (Set_new xs) = (x \<in> set xs)"
  by (simp add: Set_has_def set_Set_new)

lemma dom_foldl_upd:
  "dom (foldl (\<lambda>m column. m(id_col column \<mapsto> column)) m0 cs) = dom m0 \<union> id_col ` set cs"
  by (induction cs arbitrary: m0) auto

lemma Map_has_columnsById: "Map_has (columnsById cs) i = (i \<in> set (map id_col cs))"
proof -
  have "Map_has (columnsById cs) i = (i \<in> dom (columnsById cs))"
    by (auto simp: Map_has_def)
  then show ?thesis
    by (simp add: columnsById_def dom_foldl_upd)
qed

lemma filter_known_cong:
  "filter (\<lambda>x. \<not> (x \<in> set (filter (\<lambda>y. y \<in> set r) s))) r = filter (\<lambda>x. \<not> (x \<in> set s)) r"
  by (rule filter_cong) auto

lemma resolvedOrder_eq: "resolvedOrder cs ord = reconcile_spec ord (map id_col cs)"
proof -
  let ?r = "map id_col cs"
  let ?known = "filter (\<lambda>y. y \<in> set ?r) ord"
  have "resolvedOrder cs ord =
        ?known @ map id_col (filter (\<lambda>column. \<not> (id_col column \<in> set ?known)) cs)"
    unfolding resolvedOrder_def Let_def Map_has_columnsById ..
  also have "map id_col (filter (\<lambda>column. \<not> (id_col column \<in> set ?known)) cs)
        = filter (\<lambda>x. \<not> (x \<in> set ?known)) ?r"
    by (simp only: filter_map comp_def)
  also have "\<dots> = filter (\<lambda>x. \<not> (x \<in> set ord)) ?r"
    by (rule filter_known_cong)
  finally show ?thesis
    by (simp only: reconcile_spec_def)
qed

lemma reconcileColumnOrder_eq: "reconcileColumnOrder r s = reconcile_spec s r"
proof -
  have "reconcileColumnOrder r s =
        filter (\<lambda>y. y \<in> set r) s @ filter (\<lambda>x. \<not> (x \<in> set (filter (\<lambda>y. y \<in> set r) s))) r"
    unfolding reconcileColumnOrder_def Let_def Set_has_Set_new ..
  then show ?thesis
    by (simp only: filter_known_cong reconcile_spec_def)
qed

lemma reconcile_spec_idem: "reconcile_spec (reconcile_spec s r) r = reconcile_spec s r"
proof -
  let ?k = "filter (\<lambda>x. x \<in> set r) s"
  let ?m = "filter (\<lambda>x. \<not> (x \<in> set s)) r"
  have keep: "filter (\<lambda>x. x \<in> set r) (?k @ ?m) = ?k @ ?m"
    unfolding filter_id_conv by auto
  have none: "filter (\<lambda>x. \<not> (x \<in> set (?k @ ?m))) r = []"
    by (auto simp: filter_empty_conv)
  show ?thesis
    unfolding reconcile_spec_def [of "?k @ ?m" r] reconcile_spec_def [of s r]
    by (simp only: keep none append_Nil2)
qed

lemma reconcile_spec_self: "reconcile_spec r r = r"
  by (simp add: reconcile_spec_def)

lemma set_reconcile_spec: "set (reconcile_spec s r) = set r"
  by (auto simp: reconcile_spec_def)

lemma distinct_reconcile_spec:
  "distinct s \<Longrightarrow> distinct r \<Longrightarrow> distinct (reconcile_spec s r)"
  by (auto simp: reconcile_spec_def)

lemma mset_reconcile_spec:
  "distinct s \<Longrightarrow> distinct r \<Longrightarrow> mset (reconcile_spec s r) = mset r"
  by (simp add: set_eq_iff_mset_eq_distinct [symmetric] distinct_reconcile_spec set_reconcile_spec)

lemma splice_remove_one:
  assumes "0 \<le> i" "i < int (length xs)"
  shows "splice i 1 [] xs = ([xs ! nat i], removeAt (nat i) xs)"
proof -
  have lt: "nat i < length xs" using assms by linarith
  have "take (Suc 0) (drop (nat i) xs) = [xs ! nat i]"
    using lt by (simp add: take_Suc_conv_app_nth)
  moreover have "nat (min 1 (int (length xs) - i)) = Suc 0"
    using assms by (simp add: min_def)
  ultimately show ?thesis
    using assms by (simp add: splice_def removeAt_def Let_def min_def)
qed

lemma splice_insert:
  assumes "0 \<le> j" "j \<le> int (length xs)"
  shows "splice j 0 ys xs = ([], take (nat j) xs @ ys @ drop (nat j) xs)"
  using assms by (simp add: splice_def Let_def min_def)

lemma length_removeAt: "n < length xs \<Longrightarrow> length (removeAt n xs) = length xs - 1"
  by (simp add: removeAt_def)

lemma mset_removeAt: "n < length xs \<Longrightarrow> add_mset (xs ! n) (mset (removeAt n xs)) = mset xs"
proof -
  assume "n < length xs"
  then have "xs = take n xs @ xs ! n # drop (Suc n) xs"
    by (rule id_take_nth_drop)
  then have "mset xs = mset (take n xs @ xs ! n # drop (Suc n) xs)"
    by simp
  then show ?thesis
    by (simp add: removeAt_def)
qed

lemma moveColumn_valid:
  assumes "0 \<le> i" "i < int (length xs)" "0 \<le> j" "j < int (length xs)"
  shows "moveColumn i j xs =
           take (nat j) (removeAt (nat i) xs) @ [xs ! nat i] @ drop (nat j) (removeAt (nat i) xs)"
proof -
  have "nat i < length xs" using assms by linarith
  then have "j \<le> int (length (removeAt (nat i) xs))"
    using assms by (simp add: length_removeAt)
  then show ?thesis
    using assms by (simp add: moveColumn_def splice_remove_one splice_insert)
qed

lemma removeAt_insert:
  "n \<le> length ys \<Longrightarrow> removeAt n (take n ys @ [x] @ drop n ys) = ys"
  by (simp add: removeAt_def min_def)

lemma nth_insert:
  "n \<le> length ys \<Longrightarrow> (take n ys @ [x] @ drop n ys) ! n = x"
  by (simp add: nth_append min_def)

lemma mset_insert: "mset (take n ys @ [x] @ drop n ys) = add_mset x (mset ys)"
proof -
  have "mset (take n ys) + mset (drop n ys) = mset (take n ys @ drop n ys)"
    by (rule mset_append [symmetric])
  then have "mset (take n ys) + mset (drop n ys) = mset ys"
    by (simp only: append_take_drop_id)
  then show ?thesis by simp
qed

lemma set_Set_delete: "set (Set_delete x s) = set s - {x}"
  by (auto simp: Set_delete_def)

lemma set_Set_add: "set (Set_add x s) = insert x (set s)"
  by (auto simp: Set_add_def Set_has_def)

lemma set_toggleColumn:
  "set (toggleColumn c vs) = (if c \<in> set vs then set vs - {c} else insert c (set vs))"
  by (simp add: toggleColumn_def Let_def Set_has_Set_new set_Set_delete set_Set_add set_Set_new)


lemma pow2_pos: "0 < pow2 e"
  by (simp add: pow2_def)

lemma double_ulp_pos: "0 < double_ulp x"
  by (simp add: double_ulp_def pow2_pos)

lemma round_half_even_of_int: "round_half_even (of_int z) = z"
  by (simp add: round_half_even_def)

lemma nearest_double_exact:
  assumes "x / double_ulp x = of_int z"
  shows "nearest_double x = x"
proof -
  have "nearest_double x = (x / double_ulp x) * double_ulp x"
    unfolding nearest_double_def assms round_half_even_of_int ..
  also have "\<dots> = x"
    using double_ulp_pos [of x] by simp
  finally show ?thesis .
qed

lemma double_exponent_of_int:
  assumes "n \<noteq> 0" and "\<bar>n\<bar> < 2 ^ 53"
  shows "0 \<le> double_exponent (of_int n)" and "double_exponent (of_int n) \<le> 52"
proof -
  have pos: "0 < \<bar>n\<bar>" using assms(1) by simp
  have a: "\<bar>real_of_int n\<bar> = of_int \<bar>n\<bar>" by simp
  have "1 \<le> \<bar>n\<bar>" using pos by linarith
  then have one: "1 \<le> \<bar>real_of_int n\<bar>"
    unfolding a by (simp only: of_int_1_le_iff)
  have fl: "\<lfloor>\<bar>real_of_int n\<bar>\<rfloor> = \<bar>n\<bar>"
    unfolding a by (rule floor_of_int)
  have e: "double_exponent (of_int n) = max (- 1022) (bitlen \<bar>n\<bar> - 1)"
    unfolding double_exponent_def Let_def fl using one by (simp only: if_True)
  have "bitlen \<bar>n\<bar> \<noteq> 0"
    using pos by (simp add: bitlen_eq_zero_iff)
  then have lo: "1 \<le> bitlen \<bar>n\<bar>"
    using bitlen_nonneg [of "\<bar>n\<bar>"] by linarith
  have hi: "bitlen \<bar>n\<bar> \<le> 53"
    using assms(2) by (simp add: bitlen_le_iff_power)
  show "0 \<le> double_exponent (of_int n)" using lo unfolding e by simp
  show "double_exponent (of_int n) \<le> 52" using hi unfolding e by simp
qed

lemma nearest_double_of_int:
  assumes "\<bar>n\<bar> < 2 ^ 53"
  shows "nearest_double (of_int n) = of_int n"
proof (cases "n = 0")
  case True
  then show ?thesis
    by (simp add: nearest_double_def round_half_even_def)
next
  case False
  let ?e = "double_exponent (of_int n)"
  let ?k = "nat (52 - ?e)"
  have e: "0 \<le> ?e" "?e \<le> 52"
    using False assms by (rule double_exponent_of_int)+
  have u: "double_ulp (of_int n) = 1 / 2 ^ ?k"
  proof (cases "?e = 52")
    case True
    then show ?thesis by (simp add: double_ulp_def pow2_def)
  next
    case False
    then have "?e - 52 < 0" using e by simp
    moreover have "nat (- (?e - 52)) = ?k" by simp
    ultimately show ?thesis
      unfolding double_ulp_def pow2_def by (simp only: if_False not_le [symmetric])
  qed
  have "real_of_int n / double_ulp (of_int n) = of_int (n * 2 ^ ?k)"
    unfolding u by simp
  then show ?thesis
    by (rule nearest_double_exact)
qed

lemma double_exponent_less:
  assumes "\<bar>y\<bar> < 2 ^ n" and "0 < n"
  shows "double_exponent y < int n"
proof (cases "1 \<le> \<bar>y\<bar>")
  case True
  let ?m = "\<lfloor>\<bar>y\<bar>\<rfloor>"
  have "real_of_int ?m < 2 ^ n" using assms(1) by linarith
  then have "real_of_int ?m < real_of_int (2 ^ n)" by simp
  then have "?m < 2 ^ n" by (simp only: of_int_less_iff)
  then have "bitlen ?m \<le> int n"
    by (simp add: bitlen_le_iff_power)
  then show ?thesis
    using True assms(2) by (simp add: double_exponent_def Let_def)
next
  case False
  then show ?thesis
    using assms(2) bitlen_nonneg [of "\<lceil>1 / \<bar>y\<bar>\<rceil> - 1"]
    by (simp add: double_exponent_def Let_def)
qed

lemma to_double_in_range:
  assumes "\<bar>nearest_double x\<bar> < 2 ^ n" and "0 < n" and "n \<le> 1024"
  shows "to_double x = Finite (nearest_double x)"
proof -
  have "double_exponent (nearest_double x) < int n"
    using assms(1,2) by (rule double_exponent_less)
  then have "\<not> 1024 \<le> double_exponent (nearest_double x)"
    using assms(3) by simp
  then show ?thesis
    unfolding to_double_def Let_def by (simp only: if_False)
qed

lemma to_double_of_int:
  assumes "\<bar>n\<bar> < 2 ^ 53"
  shows "to_double (of_int n) = Finite (of_int n)"
proof -
  have "\<bar>real_of_int n\<bar> < 2 ^ 53"
    using assms by (metis of_int_abs of_int_less_numeral_power_cancel_iff)
  then have "\<bar>nearest_double (real_of_int n)\<bar> < 2 ^ 53"
    by (simp only: nearest_double_of_int [OF assms])
  then have "to_double (real_of_int n) = Finite (nearest_double (real_of_int n))"
    by (rule to_double_in_range) simp_all
  then show ?thesis
    by (simp only: nearest_double_of_int [OF assms])
qed

lemma js_add_of_int:
  "\<bar>s + a\<bar> < 2 ^ 53 \<Longrightarrow> js_add (Finite (of_int s)) (Finite (of_int a)) = Finite (of_int (s + a))"
  using to_double_of_int [of "s + a"] by simp

lemma js_sub_of_int:
  "\<bar>s - a\<bar> < 2 ^ 53 \<Longrightarrow> js_sub (Finite (of_int s)) (Finite (of_int a)) = Finite (of_int (s - a))"
  using to_double_of_int [of "s - a"] by simp








lemma onMouseMove_eq:
  "onMouseMove d x prev =
     prev(columnId d \<mapsto> Math_round (Math_max (Finite 60) (js_sub (js_add (startWidth d) x) (startX d))))"
  by (simp add: onMouseMove_def Let_def)

lemma Math_round_max_finite:
  "Math_round (Math_max (Finite 60) (Finite r)) = Finite (of_int (round (max 60 r)))"
  by simp

subsection \<open>Reconciliation\<close>

text \<open>
  Claim C1. For every saved order and every registry, reconciliation returns the
  elements of the saved order that exist in the registry, in their order in the saved
  order, followed by the elements of the registry that are not in the saved order, in
  registry order. This holds of the dialog's \<open>resolvedOrder\<close> (whose registry is the ids
  of its columns), of the pages' reconciliation on a change of the registry, and of the
  pages' initial column order computed from a saved order.
\<close>

theorem reconcile_known_then_missing:
  "resolvedOrder columns savedOrder = reconcile_spec savedOrder (map id_col columns)
   \<and> reconcileColumnOrder registry savedOrder = reconcile_spec savedOrder registry
   \<and> initialColumnOrder (Some savedOrder) registry = reconcile_spec savedOrder registry"
  by (simp add: resolvedOrder_eq reconcileColumnOrder_eq initialColumnOrder_def)

text \<open>
  Claim C2. Reconciliation is idempotent: reconciling a reconciled order against the
  same registry changes nothing, in the dialog and in the pages.
\<close>

theorem reconcile_idempotent:
  "resolvedOrder columns (resolvedOrder columns s) = resolvedOrder columns s
   \<and> reconcileColumnOrder r (reconcileColumnOrder r s) = reconcileColumnOrder r s"
  by (simp add: resolvedOrder_eq reconcileColumnOrder_eq reconcile_spec_idem)

text \<open>
  Claim C3. Reconciliation is a no-op when the saved order equals the registry:
  reconciling a list of column ids against itself returns it, in the pages (also when
  nothing is saved and the registry itself is taken as the saved order) and in the
  dialog.
\<close>

theorem reconcile_registry_noop:
  "reconcileColumnOrder r r = r
   \<and> initialColumnOrder None r = r
   \<and> initialColumnOrder (Some r) r = r
   \<and> resolvedOrder columns (map id_col columns) = map id_col columns"
  by (simp add: resolvedOrder_eq reconcileColumnOrder_eq initialColumnOrder_def
      reconcile_spec_self)

text \<open>
  Claim C9. When neither the saved order nor the registry has a duplicate entry, the
  reconciled order is a permutation of the registry: it has exactly the registry's ids,
  each once, so no unknown saved id survives and no registry id is dropped.
\<close>

theorem reconcile_permutation_of_registry:
  assumes "distinct savedOrder" and "distinct registry" and "distinct (map id_col columns)"
  shows "mset (reconcileColumnOrder registry savedOrder) = mset registry
       \<and> set (reconcileColumnOrder registry savedOrder) = set registry
       \<and> distinct (reconcileColumnOrder registry savedOrder)
       \<and> mset (resolvedOrder columns savedOrder) = mset (map id_col columns)
       \<and> distinct (resolvedOrder columns savedOrder)"
proof -
  have page: "mset (reconcile_spec savedOrder registry) = mset registry"
    using assms(1,2) by (rule mset_reconcile_spec)
  have dialog: "mset (reconcile_spec savedOrder (map id_col columns)) = mset (map id_col columns)"
    using assms(1,3) by (rule mset_reconcile_spec)
  have "distinct (reconcile_spec savedOrder registry)"
    using assms(1,2) by (rule distinct_reconcile_spec)
  moreover have "distinct (reconcile_spec savedOrder (map id_col columns))"
    using assms(1,3) by (rule distinct_reconcile_spec)
  ultimately show ?thesis
    using page dialog
    by (simp only: resolvedOrder_eq reconcileColumnOrder_eq set_reconcile_spec simp_thms)
qed

theorem reconcile_permutation_of_registry_witness:
  "distinct [''name'', ''ghost'', ''id'']
   \<and> distinct [''id'', ''name'', ''comment'']
   \<and> distinct (map id_col [\<lparr>id_col = ''id'', label = ''ID''\<rparr>, \<lparr>id_col = ''name'', label = ''Name''\<rparr>])
   \<and> mset (reconcileColumnOrder [''id'', ''name'', ''comment''] [''name'', ''ghost'', ''id''])
       = mset [''id'', ''name'', ''comment'']
   \<and> mset (resolvedOrder [\<lparr>id_col = ''id'', label = ''ID''\<rparr>, \<lparr>id_col = ''name'', label = ''Name''\<rparr>]
             [''name'', ''ghost'', ''id''])
       = mset [''id'', ''name'']"
proof -
  have s: "distinct [''name'', ''ghost'', ''id'']" by simp
  have r: "distinct [''id'', ''name'', ''comment'']" by simp
  have c: "distinct (map id_col [\<lparr>id_col = ''id'', label = ''ID''\<rparr>, \<lparr>id_col = ''name'', label = ''Name''\<rparr>])"
    by simp
  show ?thesis
    using s r c reconcile_permutation_of_registry [OF s r c] by simp
qed

subsection \<open>Reordering\<close>

text \<open>
  Claim C4. For every list and every pair of valid indices \<open>i\<close> and \<open>j\<close>, \<open>moveColumn i j\<close>
  removes the element at index \<open>i\<close> and inserts it at index \<open>j\<close>: the result has the same
  multiset of elements (so the same members and the same length), its element at \<open>j\<close>
  is the input's element at \<open>i\<close>, and the result without its position \<open>j\<close> is the input
  without its position \<open>i\<close>, so only that one element has moved.
\<close>

theorem moveColumn_moves_one:
  assumes "0 \<le> i" and "i < int (length xs)" and "0 \<le> j" and "j < int (length xs)"
  shows "mset (moveColumn i j xs) = mset xs
       \<and> set (moveColumn i j xs) = set xs
       \<and> length (moveColumn i j xs) = length xs
       \<and> moveColumn i j xs ! nat j = xs ! nat i
       \<and> removeAt (nat j) (moveColumn i j xs) = removeAt (nat i) xs"
proof -
  let ?ys = "removeAt (nat i) xs"
  have i: "nat i < length xs" using assms by linarith
  have j: "nat j \<le> length ?ys" using assms i by (simp add: length_removeAt)
  have eq: "moveColumn i j xs = take (nat j) ?ys @ [xs ! nat i] @ drop (nat j) ?ys"
    using assms by (rule moveColumn_valid)
  have "mset (moveColumn i j xs) = add_mset (xs ! nat i) (mset ?ys)"
    unfolding eq by (rule mset_insert)
  then have m: "mset (moveColumn i j xs) = mset xs"
    by (simp only: mset_removeAt [OF i])
  have s: "set (moveColumn i j xs) = set xs"
    using m by (rule mset_eq_setD)
  have l: "length (moveColumn i j xs) = length xs"
    using m by (rule mset_eq_length)
  have n: "moveColumn i j xs ! nat j = xs ! nat i"
    unfolding eq using j by (rule nth_insert)
  have r: "removeAt (nat j) (moveColumn i j xs) = ?ys"
    unfolding eq using j by (rule removeAt_insert)
  from m s l n r show ?thesis by simp
qed

theorem moveColumn_moves_one_witness:
  "(0::int) \<le> 0 \<and> (0::int) < int (length [Some ''id'', Some ''name'', Some ''comment''])
   \<and> (0::int) \<le> 2 \<and> (2::int) < int (length [Some ''id'', Some ''name'', Some ''comment''])
   \<and> moveColumn 0 2 [Some ''id'', Some ''name'', Some ''comment'']
       = [Some ''name'', Some ''comment'', Some ''id'']
   \<and> mset (moveColumn 0 2 [Some ''id'', Some ''name'', Some ''comment''])
       = mset [Some ''id'', Some ''name'', Some ''comment'']
   \<and> removeAt (nat 2) (moveColumn 0 2 [Some ''id'', Some ''name'', Some ''comment''])
       = removeAt (nat 0) [Some ''id'', Some ''name'', Some ''comment'']"
proof -
  have a: "(0::int) \<le> 0" by simp
  have b: "(0::int) < int (length [Some ''id'', Some ''name'', Some ''comment''])" by simp
  have c: "(0::int) \<le> 2" by simp
  have d: "(2::int) < int (length [Some ''id'', Some ''name'', Some ''comment''])" by simp
  have e: "moveColumn 0 2 [Some ''id'', Some ''name'', Some ''comment'']
             = [Some ''name'', Some ''comment'', Some ''id'']"
    by (simp add: moveColumn_def splice_def)
  show ?thesis
    using a b c d e moveColumn_moves_one [OF a b c d] by simp
qed

subsection \<open>Widths, visibility and confirmation in the dialog\<close>

text \<open>
  Claim C5. The width map never keeps an entry that is set to \<open>undefined\<close>: for every
  widths map and every column id, \<open>updateWidth\<close> with \<open>undefined\<close> gives a map with no entry
  for the id, and with a number \<open>w\<close> a map whose entry for the id is \<open>w\<close>. The same holds
  through the handler of a row's width field, where \<open>null\<close> stands for an emptied field.
\<close>

theorem updateWidth_deletes_on_undefined:
  "updateWidth c None m c = None
   \<and> c \<notin> dom (updateWidth c None m)
   \<and> updateWidth c (Some w) m c = Some w
   \<and> ColumnEditorRow_onChange c Null m c = None
   \<and> ColumnEditorRow_onChange c (Number w) m c = Some w"
  by (simp add: updateWidth_def ColumnEditorRow_onChange_def)

text \<open>
  Claim C6. Toggling the same column id twice gives back the original visibility set:
  the result has exactly the members of the original. (The \<open>Set\<close> of the host language
  also remembers insertion order, and an id that was present is re-inserted at the end,
  so the theorem speaks of membership, which is what equality of sets means.)
\<close>

theorem toggleColumn_twice:
  "set (toggleColumn c (toggleColumn c vs)) = set vs
   \<and> Set_has x (toggleColumn c (toggleColumn c vs)) = Set_has x vs"
  by (auto simp: set_toggleColumn Set_has_def)

text \<open>
  Claim C7. On confirm the dialog emits the new layout atomically: \<open>onOk\<close> makes exactly
  one call, \<open>onApply\<close>, whose single argument carries the column order (the working order
  reconciled against the columns of the dialog), the visibility set and the width map;
  the page that handles the call takes over all three and closes the dialog.
\<close>

theorem onOk_emits_layout_once:
  "onOk columns st =
     [OnApply \<lparr>columnOrder = reconcile_spec (order st) (map id_col columns),
               showColumns = visibleColumns st,
               columnWidths = widths st\<rparr>]
   \<and> length (onOk columns st) = 1
   \<and> foldl (\<lambda>p c. handle c p) p (onOk columns st) =
       p\<lparr>columnOrder := reconcile_spec (order st) (map id_col columns),
         showColumns := visibleColumns st,
         columnWidths := widths st,
         editColumnsOpen := False\<rparr>"
  by (simp add: onOk_def resolvedOrder_eq Array_from_def onApply_def)

subsection \<open>Resize handles\<close>

text \<open>
  Claim C8, as stated, fails: the new width is not always the starting width plus the
  pointer's horizontal displacement. A column of width 100 whose handle is dragged 100
  pixels to the left gets the width 60, not 0.
\<close>

theorem resize_plain_delta_counterexample:
  "startWidth (handleResizeStart (map_of [(''name'', Finite 100)]) ''name'' (Finite 200) None)
     = Finite 100
   \<and> onMouseMove (handleResizeStart (map_of [(''name'', Finite 100)]) ''name'' (Finite 200) None)
        (Finite 100) (map_of [(''name'', Finite 100)]) ''name'' = Some (Finite 60)
   \<and> js_add (Finite 100) (js_sub (Finite 100) (Finite 200)) = Finite 0
   \<and> onMouseMove (handleResizeStart (map_of [(''name'', Finite 100)]) ''name'' (Finite 200) None)
        (Finite 100) (map_of [(''name'', Finite 100)]) ''name'' \<noteq> Some (Finite (100 + (100 - 200)))"
  by code_simp

text \<open>
  Claim C8, amended. A resize handle computes the width of the dragged column from the
  horizontal mouse delta: the new width is \<open>Math.round(Math.max(60, startWidth + clientX -
  startX))\<close>, the sum and the difference being those of doubles. When the starting width
  and the two pointer positions are integers, without the sums leaving the range of
  integers that doubles hold exactly, and the starting width plus (current pointer x
  minus drag-start x) is at least 60, the new width is that sum. The width is written
  into the entry of the width map for that column, and the entry of every other column
  is unchanged.
\<close>

theorem resize_writes_clamped_rounded_width:
  "onMouseMove (handleResizeStart ws c x0 h) x prev =
     prev(c \<mapsto> Math_round (Math_max (Finite 60)
                 (js_sub (js_add (startWidth (handleResizeStart ws c x0 h)) x) x0)))
   \<and> (startWidth (handleResizeStart ws c x0 h) = Finite (of_int s) \<and> x = Finite (of_int a)
        \<and> x0 = Finite (of_int b) \<and> \<bar>s + a\<bar> < 2 ^ 53 \<and> \<bar>s + a - b\<bar> < 2 ^ 53
        \<and> 60 \<le> s + (a - b) \<longrightarrow>
        onMouseMove (handleResizeStart ws c x0 h) x prev c = Some (Finite (of_int (s + (a - b)))))
   \<and> (other \<noteq> c \<longrightarrow> onMouseMove (handleResizeStart ws c x0 h) x prev other = prev other)"
proof -
  let ?d = "handleResizeStart ws c x0 h"
  have cid: "columnId ?d = c" and sx: "startX ?d = x0"
    by (simp_all add: handleResizeStart_def)
  have eq: "onMouseMove ?d x prev =
      prev(c \<mapsto> Math_round (Math_max (Finite 60) (js_sub (js_add (startWidth ?d) x) x0)))"
    using onMouseMove_eq [of ?d x prev] by (simp only: cid sx)
  have same: "onMouseMove ?d x prev c = Some (Finite (of_int (s + (a - b))))"
    if "startWidth ?d = Finite (of_int s)" and "x = Finite (of_int a)" and "x0 = Finite (of_int b)"
      and "\<bar>s + a\<bar> < 2 ^ 53" and "\<bar>s + a - b\<bar> < 2 ^ 53" and "60 \<le> s + (a - b)"
  proof -
    let ?k = "s + a - b"
    have k: "?k = s + (a - b)" by simp
    have "js_add (startWidth ?d) x = Finite (of_int (s + a))"
      unfolding that(1,2) using that(4) by (rule js_add_of_int)
    moreover have "js_sub (Finite (of_int (s + a))) x0 = Finite (of_int ?k)"
      unfolding that(3) using that(5) by (rule js_sub_of_int)
    ultimately have sum: "js_sub (js_add (startWidth ?d) x) x0 = Finite (of_int ?k)"
      by (simp only:)
    have "max 60 (real_of_int ?k) = real_of_int ?k"
      using that(6) by (simp add: max_def)
    then have "round (max 60 (real_of_int ?k)) = ?k"
      by (simp only: round_of_int)
    then have "Math_round (Math_max (Finite 60) (Finite (of_int ?k))) = Finite (of_int ?k)"
      by (simp only: Math_round_max_finite)
    then have "onMouseMove ?d x prev c = Some (Finite (of_int ?k))"
      unfolding eq sum by simp
    then show ?thesis
      by (simp only: k)
  qed
  have other: "onMouseMove ?d x prev other = prev other" if "other \<noteq> c"
    unfolding eq using that by simp
  from eq same other show ?thesis by blast
qed

theorem resize_writes_clamped_rounded_width_witness:
  "startWidth (handleResizeStart (map_of [(''name'', Finite 100)]) ''name'' (Finite 200) None)
     = Finite (of_int 100)
   \<and> Finite 230 = Finite (of_int 230)
   \<and> Finite 200 = Finite (of_int 200)
   \<and> \<bar>100 + 230 :: int\<bar> < 2 ^ 53
   \<and> \<bar>100 + 230 - 200 :: int\<bar> < 2 ^ 53
   \<and> (60::int) \<le> 100 + (230 - 200)
   \<and> ''id'' \<noteq> ''name''
   \<and> onMouseMove (handleResizeStart (map_of [(''name'', Finite 100)]) ''name'' (Finite 200) None)
        (Finite 230) (map_of [(''name'', Finite 100), (''id'', Finite 70)]) ''name''
       = Some (Finite 130)
   \<and> onMouseMove (handleResizeStart (map_of [(''name'', Finite 100)]) ''name'' (Finite 200) None)
        (Finite 230) (map_of [(''name'', Finite 100), (''id'', Finite 70)]) ''id''
       = Some (Finite 70)"
proof -
  have a: "startWidth (handleResizeStart (map_of [(''name'', Finite 100)]) ''name'' (Finite 200) None)
     = Finite (of_int 100)"
    by (simp add: handleResizeStart_def)
  have b: "Finite 230 = Finite (of_int 230)" and c: "Finite 200 = Finite (of_int 200)"
    by simp_all
  have d: "\<bar>100 + 230 :: int\<bar> < 2 ^ 53" and e: "\<bar>100 + 230 - 200 :: int\<bar> < 2 ^ 53"
    and f: "(60::int) \<le> 100 + (230 - 200)"
    by simp_all
  have g: "''id'' \<noteq> ''name''" by simp
  note inst = resize_writes_clamped_rounded_width [where ws = "map_of [(''name'', Finite 100)]"
        and c = "''name''" and ?x0.0 = "Finite 200" and h = None and x = "Finite 230"
        and s = 100 and a = 230 and b = 200
        and prev = "map_of [(''name'', Finite 100), (''id'', Finite 70)]" and other = "''id''"]
  have "onMouseMove (handleResizeStart (map_of [(''name'', Finite 100)]) ''name'' (Finite 200) None)
        (Finite 230) (map_of [(''name'', Finite 100), (''id'', Finite 70)]) ''name''
       = Some (Finite (of_int (100 + (230 - 200))))"
    using inst a b c d e f by blast
  then have k: "onMouseMove (handleResizeStart (map_of [(''name'', Finite 100)]) ''name'' (Finite 200) None)
        (Finite 230) (map_of [(''name'', Finite 100), (''id'', Finite 70)]) ''name''
       = Some (Finite 130)"
    by simp
  have "onMouseMove (handleResizeStart (map_of [(''name'', Finite 100)]) ''name'' (Finite 200) None)
        (Finite 230) (map_of [(''name'', Finite 100), (''id'', Finite 70)]) ''id''
       = map_of [(''name'', Finite 100), (''id'', Finite 70)] ''id''"
    using inst g by blast
  then have o: "onMouseMove (handleResizeStart (map_of [(''name'', Finite 100)]) ''name'' (Finite 200) None)
        (Finite 230) (map_of [(''name'', Finite 100), (''id'', Finite 70)]) ''id''
       = Some (Finite 70)"
    by simp
  from a b c d e f g k o show ?thesis
    by (intro conjI)
qed




end
